theory Spec2Isabelle
  imports Main
begin

section \<open>Values, exceptions and history events\<close>

text \<open>
  Python values that travel through the driver: results of operations, values sent into
  the generator, the generator's return value, the custom status. \<open>PNone\<close> is Python's
  \<^verbatim>\<open>None\<close>.
\<close>

datatype pyval = PNone | PBool bool | PInt int | PStr string

text \<open>
  An exception instance, with the text that \<^verbatim>\<open>str(e)\<close> gives. \<open>PyException\<close> is an
  instance of \<^verbatim>\<open>Exception\<close> or of a subclass, the only ones that
  \<^verbatim>\<open>except Exception\<close> catches; \<open>PyBaseException\<close> is one of the others
  (\<^verbatim>\<open>KeyboardInterrupt\<close>, \<^verbatim>\<open>SystemExit\<close>, \<^verbatim>\<open>GeneratorExit\<close>).
\<close>

datatype py_exn = PyException string | PyBaseException string

fun is_Exception :: "py_exn \<Rightarrow> bool" where
  "is_Exception (PyException m) = True"
| "is_Exception (PyBaseException m) = False"

fun str_exn :: "py_exn \<Rightarrow> string" where
  "str_exn (PyException m) = m"
| "str_exn (PyBaseException m) = m"

datatype HistoryEventType =
  OrchestratorStarted | TaskScheduled | TaskCompleted | TaskFailed | TimerFired
  | EventRaised | OtherEventType

text \<open>
  \<^verbatim>\<open>dt_parse\<close> is dateutil's parser, a library function. The \<^verbatim>\<open>Timestamp\<close> string of
  an event is represented by what the parser makes of it: an instant (microseconds, UTC),
  or a string that the parser rejects by raising. The timestamps are complete, as the host
  writes them: the parser takes nothing from the clock.
\<close>

datatype timestamp = Instant int | Unparseable

fun dt_parse :: "timestamp \<Rightarrow> py_exn + int" where
  "dt_parse (Instant t) = Inr t"
| "dt_parse Unparseable = Inl (PyException ''Unknown string format'')"

text \<open>
  A history event is a dictionary; the driver reads the keys \<^verbatim>\<open>EventType\<close> and
  \<^verbatim>\<open>Timestamp\<close>. \<open>IsProcessed\<close> is the flag of the data model; the driver never reads it.
\<close>

record history_event =
  EventType :: HistoryEventType
  Timestamp :: timestamp
  IsProcessed :: bool

section \<open>Operation handles\<close>

text \<open>
  The action descriptor of an operation: what the host is told to schedule. The driver
  only moves descriptors around, so a descriptor is its type tag and its parameter.
\<close>

datatype action = CallActivityAction string pyval

text \<open>
  \<^verbatim>\<open>Task\<close> and \<^verbatim>\<open>TaskSet\<close> are declared outside this file. The records hold the
  attributes that the driver reads. \<open>action = None\<close> is a \<^verbatim>\<open>Task\<close> for which
  \<^verbatim>\<open>hasattr(task, "action")\<close> is false; the driver tests \<^verbatim>\<open>action\<close> and reads
  \<^verbatim>\<open>_action\<close>, the same descriptor. \<open>exception = None\<close> is an \<^verbatim>\<open>exception\<close>
  attribute that holds \<^verbatim>\<open>None\<close>.
\<close>

record task =
  isCompleted :: bool
  isFaulted :: bool
  action :: "action option"
  result :: pyval
  exception :: "py_exn option"

record task_set =
  set_isCompleted :: bool
  set_isFaulted :: bool
  set_actions :: "action list option"
  set_result :: pyval
  set_exception :: "py_exn option"

text \<open>What the generator yields: a \<^verbatim>\<open>Task\<close>, a \<^verbatim>\<open>TaskSet\<close> or a plain value.\<close>

datatype yielded = YTask task | YTaskSet task_set | YValue pyval

fun is_handle :: "yielded \<Rightarrow> bool" where
  "is_handle (YTask t) = True"
| "is_handle (YTaskSet ts) = True"
| "is_handle (YValue v) = False"

fun is_faulted :: "yielded \<Rightarrow> bool" where
  "is_faulted (YTask t) = isFaulted t"
| "is_faulted (YTaskSet ts) = set_isFaulted ts"
| "is_faulted (YValue v) = False"

fun exception_of :: "yielded \<Rightarrow> py_exn option" where
  "exception_of (YTask t) = exception t"
| "exception_of (YTaskSet ts) = set_exception ts"
| "exception_of (YValue v) = None"

fun is_pending :: "yielded \<Rightarrow> bool" where
  "is_pending (YTask t) = (\<not> isCompleted t \<and> \<not> isFaulted t)"
| "is_pending (YTaskSet ts) = (\<not> set_isCompleted ts \<and> \<not> set_isFaulted ts)"
| "is_pending (YValue v) = False"

text \<open>
  Modelled from the spec: \<^verbatim>\<open>should_suspend\<close> of the \<^verbatim>\<open>tasks\<close> module, which is
  not in this file. The spec: true for a pending handle or batch, false for a value that is
  completed or faulted. The spec's further case, a sentinel for "no further history", is
  none of the values that the driver is seen to receive and has no clause here. The driver
  below takes the predicate as a parameter; this definition instantiates it.
\<close>

definition should_suspend :: "yielded \<Rightarrow> bool" where
  "should_suspend v = is_pending v"

section \<open>The execution context and the decision\<close>

record durable_context =
  histories :: "history_event list"
  decision_started_event :: history_event
  current_utc_datetime :: "int option"
  actions :: "action list list"

text \<open>
  \<^verbatim>\<open>OrchestratorState\<close>, the decision; the class is declared outside this file. The driver
  passes the keyword \<^verbatim>\<open>error\<close> at one site only; at the others the field is absent
  (\<^verbatim>\<open>None\<close>), as the specification says of the decisions of suspension and of
  completion. The driver returns \<^verbatim>\<open>to_json_string()\<close> of this object; the method is
  a parameter of \<open>handle\<close> below.
\<close>

record orchestrator_state =
  is_done :: bool
  state_output :: pyval
  state_actions :: "action list list"
  custom_status :: pyval
  error :: "string option"

definition OrchestratorState ::
  "bool \<Rightarrow> pyval \<Rightarrow> action list list \<Rightarrow> pyval \<Rightarrow> string option \<Rightarrow> orchestrator_state" where
  "OrchestratorState d out acts cs err =
     \<lparr>is_done = d, state_output = out, state_actions = acts, custom_status = cs, error = err\<rparr>"

section \<open>The workflow as a generator\<close>

text \<open>
  A generator is resumed with a value (\<^verbatim>\<open>send\<close>) or with an exception raised at the
  point where it waits (\<^verbatim>\<open>throw\<close>). It runs to its next \<^verbatim>\<open>yield\<close>, returns
  (\<^verbatim>\<open>StopIteration\<close> with the value) or raises. The workflow function is given by
  what its call raises, if anything (\<open>gen_call\<close>: a generator function runs none of its body
  when it is called, but the call itself can fail, as with a function that takes no
  argument), by the state its generator starts in, and by what a resumption does in a
  state; it reads the context object that it was created with, as the driver has left it,
  and does not write to it.
\<close>

datatype resume_input = Send pyval | Throw py_exn

datatype 's gen_step = Yield yielded 's | Return pyval | Raise py_exn

record 's workflow =
  gen_call :: "durable_context \<Rightarrow> py_exn option"
  gen_start :: 's
  gen_resume :: "'s \<Rightarrow> resume_input \<Rightarrow> durable_context \<Rightarrow> 's gen_step"

datatype 's generator = Suspended_at 's | Finished

text \<open>What a call on the generator object gives its caller.\<close>

datatype outcome = Yielded yielded | StopIteration pyval | Raised py_exn

fun advance :: "'s gen_step \<Rightarrow> outcome \<times> 's generator" where
  "advance (Yield y g) = (Yielded y, Suspended_at g)"
| "advance (Return v) = (StopIteration v, Finished)"
| "advance (Raise e) = (Raised e, Finished)"

fun generator_send ::
  "'s workflow \<Rightarrow> 's generator \<Rightarrow> pyval \<Rightarrow> durable_context \<Rightarrow> outcome \<times> 's generator" where
  "generator_send flow (Suspended_at g) v ctx = advance (gen_resume flow g (Send v) ctx)"
| "generator_send flow Finished v ctx = (StopIteration PNone, Finished)"

definition throw_type_error :: py_exn where
  "throw_type_error = PyException
     ''exceptions must be classes or instances deriving from BaseException, not NoneType''"

fun generator_throw ::
  "'s workflow \<Rightarrow> 's generator \<Rightarrow> py_exn option \<Rightarrow> durable_context \<Rightarrow> outcome \<times> 's generator"
  where
  "generator_throw flow gen None ctx = (Raised throw_type_error, gen)"
| "generator_throw flow (Suspended_at g) (Some e) ctx = advance (gen_resume flow g (Throw e) ctx)"
| "generator_throw flow Finished (Some e) ctx = (Raised e, Finished)"

section \<open>The driver\<close>

subsection \<open>\<^verbatim>\<open>_generate_next\<close>\<close>

fun type_name :: "pyval \<Rightarrow> string" where
  "type_name PNone = ''NoneType''"
| "type_name (PBool b) = ''bool''"
| "type_name (PInt i) = ''int''"
| "type_name (PStr s) = ''str''"

definition quoted :: "string \<Rightarrow> string" where
  "quoted s = CHR 0x27 # s @ [CHR 0x27]"

definition attribute_error :: "pyval \<Rightarrow> py_exn" where
  "attribute_error v =
     PyException (quoted (type_name v) @ '' object has no attribute '' @ quoted ''result'')"

text \<open>\<^verbatim>\<open>partial_result.result\<close>: a plain value has no such attribute.\<close>

fun result_of :: "yielded \<Rightarrow> py_exn + pyval" where
  "result_of (YTask t) = Inr (result t)"
| "result_of (YTaskSet ts) = Inr (set_result ts)"
| "result_of (YValue v) = Inl (attribute_error v)"

definition generate_next ::
  "'s workflow \<Rightarrow> 's generator \<Rightarrow> durable_context \<Rightarrow> yielded \<Rightarrow> outcome \<times> 's generator" where
  "generate_next flow gen ctx partial_result =
     (if partial_result \<noteq> YValue PNone then
        (case result_of partial_result of
           Inl e \<Rightarrow> (Raised e, gen)
         | Inr r \<Rightarrow> generator_send flow gen r ctx)
      else generator_send flow gen PNone ctx)"

subsection \<open>\<^verbatim>\<open>_add_to_actions\<close>\<close>

fun add_to_actions :: "durable_context \<Rightarrow> yielded \<Rightarrow> durable_context" where
  "add_to_actions ctx (YTask t) =
     (case action t of
        Some a \<Rightarrow> ctx\<lparr>actions := actions ctx @ [[a]]\<rparr>
      | None \<Rightarrow> ctx)"
| "add_to_actions ctx (YTaskSet ts) =
     (case set_actions ts of
        Some as \<Rightarrow> ctx\<lparr>actions := actions ctx @ [as]\<rparr>
      | None \<Rightarrow> ctx)"
| "add_to_actions ctx (YValue v) = ctx"

subsection \<open>\<^verbatim>\<open>_reset_timestamp\<close>\<close>

text \<open>
  The \<^verbatim>\<open>filter\<close> over the histories, forced by \<^verbatim>\<open>list\<close>: the timestamp of every
  \<^verbatim>\<open>OrchestratorStarted\<close> event is parsed (the \<^verbatim>\<open>and\<close> skips the others), and the
  first parse that raises ends the call.
\<close>

fun started_after :: "int \<Rightarrow> history_event list \<Rightarrow> py_exn + history_event list" where
  "started_after last_timestamp [] = Inr []"
| "started_after last_timestamp (e # es) =
     (if EventType e = OrchestratorStarted then
        (case dt_parse (Timestamp e) of
           Inl x \<Rightarrow> Inl x
         | Inr t \<Rightarrow>
            (case started_after last_timestamp es of
               Inl x \<Rightarrow> Inl x
             | Inr rest \<Rightarrow> Inr (if t > last_timestamp then e # rest else rest)))
      else started_after last_timestamp es)"

text \<open>The exception raised, if any, and the context as the call leaves it.\<close>

definition reset_timestamp :: "durable_context \<Rightarrow> py_exn option \<times> durable_context" where
  "reset_timestamp ctx =
     (case dt_parse (Timestamp (decision_started_event ctx)) of
        Inl x \<Rightarrow> (Some x, ctx)
      | Inr last_timestamp \<Rightarrow>
         (case started_after last_timestamp (histories ctx) of
            Inl x \<Rightarrow> (Some x, ctx)
          | Inr decision_started_events \<Rightarrow>
             (case decision_started_events of
                [] \<Rightarrow> (None, ctx\<lparr>current_utc_datetime := None\<rparr>)
              | e # rest \<Rightarrow>
                 (let ctx' = ctx\<lparr>decision_started_event := e\<rparr> in
                  case dt_parse (Timestamp (decision_started_event ctx')) of
                    Inl x \<Rightarrow> (Some x, ctx')
                  | Inr t \<Rightarrow> (None, ctx'\<lparr>current_utc_datetime := Some t\<rparr>)))))"

subsection \<open>\<^verbatim>\<open>handle\<close>\<close>

text \<open>
  How the \<^verbatim>\<open>try\<close> block ends: the loop has set \<^verbatim>\<open>suspended\<close> and built the
  decision, or \<^verbatim>\<open>StopIteration\<close> or another exception has left the block.
\<close>

datatype signal = Suspended orchestrator_state | Stopped pyval | Failed py_exn

text \<open>One pass through the body of the \<^verbatim>\<open>while\<close> loop.\<close>

datatype 's loop_next =
  Continue durable_context "'s generator" yielded
  | Exit signal durable_context "'s generator"

fun after_resume :: "durable_context \<Rightarrow> outcome \<times> 's generator \<Rightarrow> 's loop_next" where
  "after_resume ctx (Yielded y, gen) = Continue ctx gen y"
| "after_resume ctx (StopIteration v, gen) = Exit (Stopped v) ctx gen"
| "after_resume ctx (Raised e, gen) = Exit (Failed e) ctx gen"

definition loop_body ::
  "(yielded \<Rightarrow> bool) \<Rightarrow> 's workflow \<Rightarrow> pyval \<Rightarrow> durable_context \<Rightarrow> 's generator \<Rightarrow> yielded
     \<Rightarrow> 's loop_next" where
  "loop_body susp flow cs ctx gen generation_state =
     (let ctx1 = add_to_actions ctx generation_state in
      if susp generation_state then
        Exit (Suspended (OrchestratorState False PNone (actions ctx1) cs None)) ctx1 gen
      else if is_handle generation_state \<and> is_faulted generation_state then
        after_resume ctx1 (generator_throw flow gen (exception_of generation_state) ctx1)
      else
        (case reset_timestamp ctx1 of
           (Some x, ctx2) \<Rightarrow> Exit (Failed x) ctx2 gen
         | (None, ctx2) \<Rightarrow> after_resume ctx2 (generate_next flow gen ctx2 generation_state)))"

partial_function (option) while_loop ::
  "(yielded \<Rightarrow> bool) \<Rightarrow> 's workflow \<Rightarrow> pyval \<Rightarrow> durable_context \<Rightarrow> 's generator \<Rightarrow> yielded
     \<Rightarrow> (signal \<times> durable_context \<times> 's generator) option" where
  "while_loop susp flow cs ctx gen generation_state =
     (case loop_body susp flow cs ctx gen generation_state of
        Continue ctx' gen' generation_state' \<Rightarrow> while_loop susp flow cs ctx' gen' generation_state'
      | Exit sig ctx' gen' \<Rightarrow> Some (sig, ctx', gen'))"

text \<open>The \<^verbatim>\<open>try\<close> block: the first \<^verbatim>\<open>_generate_next(None)\<close>, then the loop.\<close>

definition try_block ::
  "(yielded \<Rightarrow> bool) \<Rightarrow> 's workflow \<Rightarrow> pyval \<Rightarrow> durable_context \<Rightarrow> 's generator
     \<Rightarrow> (signal \<times> durable_context \<times> 's generator) option" where
  "try_block susp flow cs ctx gen =
     (case after_resume ctx (generate_next flow gen ctx (YValue PNone)) of
        Continue ctx' gen' generation_state \<Rightarrow> while_loop susp flow cs ctx' gen' generation_state
      | Exit sig ctx' gen' \<Rightarrow> Some (sig, ctx', gen'))"

text \<open>
  The \<^verbatim>\<open>except\<close> clauses. An exception that is no \<^verbatim>\<open>Exception\<close> passes both and
  leaves \<^verbatim>\<open>handle\<close>.
\<close>

fun orchestration_state :: "pyval \<Rightarrow> signal \<Rightarrow> durable_context \<Rightarrow> py_exn + orchestrator_state" where
  "orchestration_state cs (Suspended st) ctx = Inr st"
| "orchestration_state cs (Stopped v) ctx = Inr (OrchestratorState True v (actions ctx) cs None)"
| "orchestration_state cs (Failed e) ctx =
     (if is_Exception e then
        Inr (OrchestratorState False PNone (actions ctx) cs (Some (str_exn e)))
      else Inl e)"

text \<open>
  The \<^verbatim>\<open>Orchestrator\<close> object. \<open>durable_context\<close> and \<open>generator\<close> are attributes that
  \<^verbatim>\<open>handle\<close> sets; they are \<open>None\<close> in an object on which it has not run.
\<close>

record 's orchestrator =
  fn :: "'s workflow"
  customStatus :: pyval
  durable_context :: "durable_context option"
  generator :: "'s generator option"

definition Orchestrator :: "'s workflow \<Rightarrow> 's orchestrator" where
  "Orchestrator activity_func =
     \<lparr>fn = activity_func, customStatus = PNone, durable_context = None, generator = None\<rparr>"

text \<open>
  \<^verbatim>\<open>handle\<close>. Three of the things it calls are declared outside this file and are
  parameters: \<open>new_context\<close> is the constructor \<^verbatim>\<open>DurableOrchestrationContext\<close>, which
  gives the context for a context string or raises; \<open>function_context\<close> is the constructor
  \<^verbatim>\<open>IFunctionContext\<close>, which wraps the context or raises; \<open>to_json_string\<close> is the
  method of the decision that gives its wire form, of a type \<open>'j\<close> that the driver only
  passes on, or raises. The two constructors and the call of the workflow function come
  before the \<^verbatim>\<open>try\<close> and \<^verbatim>\<open>to_json_string\<close> after it, so what they raise leaves
  \<^verbatim>\<open>handle\<close>. The result is \<open>None\<close> when the loop never ends; otherwise what
  \<^verbatim>\<open>handle\<close> returns (\<open>Inr\<close>) or raises (\<open>Inl\<close>), and the object as the call leaves it.
\<close>

definition handle ::
  "(string \<Rightarrow> py_exn + durable_context) \<Rightarrow> (durable_context \<Rightarrow> py_exn option)
     \<Rightarrow> (orchestrator_state \<Rightarrow> py_exn + 'j) \<Rightarrow> (yielded \<Rightarrow> bool) \<Rightarrow> 's orchestrator \<Rightarrow> string
     \<Rightarrow> ((py_exn + 'j) \<times> 's orchestrator) option" where
  "handle new_context function_context to_json_string susp self context_string =
     (case new_context context_string of
        Inl x \<Rightarrow> Some (Inl x, self)
      | Inr ctx \<Rightarrow>
         (case function_context ctx of
            Some x \<Rightarrow> Some (Inl x, self\<lparr>durable_context := Some ctx\<rparr>)
          | None \<Rightarrow>
             (case gen_call (fn self) ctx of
                Some x \<Rightarrow> Some (Inl x, self\<lparr>durable_context := Some ctx\<rparr>)
              | None \<Rightarrow>
                 (case try_block susp (fn self) (customStatus self) ctx
                         (Suspended_at (gen_start (fn self))) of
                    None \<Rightarrow> None
                  | Some (sig, ctx', gen') \<Rightarrow>
                     Some (case orchestration_state (customStatus self) sig ctx' of
                             Inl x \<Rightarrow> Inl x
                           | Inr st \<Rightarrow> to_json_string st,
                           self\<lparr>durable_context := Some ctx', generator := Some gen'\<rparr>)))))"

text \<open>\<^verbatim>\<open>create\<close>: every call of the function it returns makes a new \<^verbatim>\<open>Orchestrator\<close>.\<close>

definition create ::
  "(string \<Rightarrow> py_exn + durable_context) \<Rightarrow> (durable_context \<Rightarrow> py_exn option)
     \<Rightarrow> (orchestrator_state \<Rightarrow> py_exn + 'j) \<Rightarrow> (yielded \<Rightarrow> bool) \<Rightarrow> 's workflow \<Rightarrow> string
     \<Rightarrow> (py_exn + 'j) option" where
  "create new_context function_context to_json_string susp fn' context =
     map_option fst
       (handle new_context function_context to_json_string susp (Orchestrator fn') context)"

section \<open>Runs of the loop\<close>

text \<open>
  The batch that \<^verbatim>\<open>_add_to_actions\<close> appends for a yielded value: one batch for a handle
  that carries descriptors, nothing for any other value.
\<close>

fun batch_of :: "yielded \<Rightarrow> action list list" where
  "batch_of (YTask t) = (case action t of Some a \<Rightarrow> [[a]] | None \<Rightarrow> [])"
| "batch_of (YTaskSet ts) = (case set_actions ts of Some as \<Rightarrow> [as] | None \<Rightarrow> [])"
| "batch_of (YValue v) = []"

text \<open>
  \<open>loop_reaches susp flow cs st ys st'\<close>: from the loop state \<open>st\<close> (the context, the generator
  and the value under inspection) the loop comes to the state \<open>st'\<close> by passes that do not
  leave it; \<open>ys\<close> are the values inspected on the way, in order.
\<close>

inductive loop_reaches ::
  "(yielded \<Rightarrow> bool) \<Rightarrow> 's workflow \<Rightarrow> pyval \<Rightarrow> durable_context \<times> 's generator \<times> yielded
     \<Rightarrow> yielded list \<Rightarrow> durable_context \<times> 's generator \<times> yielded \<Rightarrow> bool"
  for susp flow cs where
  here: "loop_reaches susp flow cs st [] st"
| pass: "loop_body susp flow cs ctx gen y = Continue ctx' gen' y' \<Longrightarrow>
         loop_reaches susp flow cs (ctx', gen', y') ys st \<Longrightarrow>
         loop_reaches susp flow cs (ctx, gen, y) (y # ys) st"

text \<open>
  \<open>inspected susp flow cs ctx0 ys\<close>: \<open>ys\<close> are the values that the loop inspects, in order, in
  the run of the \<^verbatim>\<open>try\<close> block that starts in the context \<open>ctx0\<close>; none when the
  workflow ends before its first \<^verbatim>\<open>yield\<close>.
\<close>

definition inspected ::
  "(yielded \<Rightarrow> bool) \<Rightarrow> 's workflow \<Rightarrow> pyval \<Rightarrow> durable_context \<Rightarrow> yielded list \<Rightarrow> bool" where
  "inspected susp flow cs ctx0 ys \<longleftrightarrow>
     (case generate_next flow (Suspended_at (gen_start flow)) ctx0 (YValue PNone) of
        (Yielded y0, gen0) \<Rightarrow>
          (\<exists>ys' ctx gen y sig ctx' gen'.
             loop_reaches susp flow cs (ctx0, gen0, y0) ys' (ctx, gen, y) \<and>
             loop_body susp flow cs ctx gen y = Exit sig ctx' gen' \<and> ys = ys' @ [y])
      | (StopIteration v, gen0) \<Rightarrow> ys = []
      | (Raised e, gen0) \<Rightarrow> ys = [])"

text \<open>
  The test of the \<^verbatim>\<open>filter\<close> in \<^verbatim>\<open>_reset_timestamp\<close>, for an event whose timestamp
  parses.
\<close>

definition started_later :: "int \<Rightarrow> history_event \<Rightarrow> bool" where
  "started_later last_timestamp e \<longleftrightarrow>
     EventType e = OrchestratorStarted \<and>
     (case dt_parse (Timestamp e) of Inr t \<Rightarrow> t > last_timestamp | Inl x \<Rightarrow> False)"

text \<open>
  The current time, when there is one, is the timestamp of the decision-started event, which
  is an \<^verbatim>\<open>OrchestratorStarted\<close> event of the history.
\<close>

definition anchored :: "durable_context \<Rightarrow> bool" where
  "anchored ctx \<longleftrightarrow>
     (case current_utc_datetime ctx of
        None \<Rightarrow> True
      | Some t \<Rightarrow>
          dt_parse (Timestamp (decision_started_event ctx)) = Inr t \<and>
          EventType (decision_started_event ctx) = OrchestratorStarted \<and>
          decision_started_event ctx \<in> set (histories ctx))"

text \<open>
  Between two contexts of one run: the history is the same, and the decision-started event
  is the same or has a strictly later timestamp.
\<close>

definition not_before :: "durable_context \<Rightarrow> durable_context \<Rightarrow> bool" where
  "not_before ctx ctx' \<longleftrightarrow>
     histories ctx' = histories ctx \<and>
     (decision_started_event ctx' = decision_started_event ctx \<or>
      (\<exists>T t. dt_parse (Timestamp (decision_started_event ctx)) = Inr T \<and>
             dt_parse (Timestamp (decision_started_event ctx')) = Inr t \<and> T < t))"

section \<open>Scenarios\<close>

text \<open>
  One call, as its handle is when the call is not in the history, when the history has its
  completion with result \<open>42\<close>, and when the history has its failure with error \<open>boom\<close>.
  Every handle carries the descriptor of the call.
\<close>

definition call_action :: action where
  "call_action = CallActivityAction ''call'' PNone"

definition pending_call :: task where
  "pending_call = \<lparr>isCompleted = False, isFaulted = False, action = Some call_action,
     result = PNone, exception = None\<rparr>"

definition completed_call :: task where
  "completed_call = \<lparr>isCompleted = True, isFaulted = False, action = Some call_action,
     result = PStr ''42'', exception = None\<rparr>"

definition failed_call :: task where
  "failed_call = \<lparr>isCompleted = True, isFaulted = True, action = Some call_action,
     result = PNone, exception = Some (PyException ''boom'')\<rparr>"

text \<open>
  The workflow that awaits one call and returns its result:
  \<^verbatim>\<open>r = yield t; return r\<close>. It has no handler, so what is thrown into it leaves it.
  In the scenarios \<^verbatim>\<open>IFunctionContext\<close> raises nothing (\<open>\<lambda>ctx. None\<close>) and the wire form
  of a decision is the decision (\<open>Inr\<close>), so that the decisions are there to compare.
\<close>

fun await_resume :: "task \<Rightarrow> nat \<Rightarrow> resume_input \<Rightarrow> durable_context \<Rightarrow> nat gen_step" where
  "await_resume t 0 (Send v) ctx = Yield (YTask t) 1"
| "await_resume t (Suc n) (Send v) ctx = Return v"
| "await_resume t n (Throw e) ctx = Raise e"

definition await_call :: "task \<Rightarrow> nat workflow" where
  "await_call t = \<lparr>gen_call = (\<lambda>ctx. None), gen_start = 0, gen_resume = await_resume t\<rparr>"

text \<open>
  The workflow that yields the same handle twice and returns what it is sent last:
  \<^verbatim>\<open>yield t; r = yield t; return r\<close>.
\<close>

fun twice_resume :: "task \<Rightarrow> nat \<Rightarrow> resume_input \<Rightarrow> durable_context \<Rightarrow> nat gen_step" where
  "twice_resume t n (Send v) ctx =
     (if n = 0 then Yield (YTask t) 1 else if n = 1 then Yield (YTask t) 2 else Return v)"
| "twice_resume t n (Throw e) ctx = Raise e"

definition await_twice :: "task \<Rightarrow> nat workflow" where
  "await_twice t = \<lparr>gen_call = (\<lambda>ctx. None), gen_start = 0, gen_resume = twice_resume t\<rparr>"

text \<open>Histories, and the contexts that the constructor makes of them.\<close>

definition event :: "HistoryEventType \<Rightarrow> int \<Rightarrow> bool \<Rightarrow> history_event" where
  "event ty t p = \<lparr>EventType = ty, Timestamp = Instant t, IsProcessed = p\<rparr>"

definition history_1 :: durable_context where
  "history_1 = \<lparr>histories = [event OrchestratorStarted 0 False],
     decision_started_event = event OrchestratorStarted 0 False,
     current_utc_datetime = Some 0, actions = []\<rparr>"

definition history_2 :: durable_context where
  "history_2 = \<lparr>histories = [event OrchestratorStarted 0 False, event TaskScheduled 1 False,
       event TaskCompleted 2 False],
     decision_started_event = event OrchestratorStarted 0 False,
     current_utc_datetime = Some 0, actions = []\<rparr>"

definition history_3 :: durable_context where
  "history_3 = \<lparr>histories = [event OrchestratorStarted 0 False, event TaskScheduled 1 False,
       event TaskFailed 2 False],
     decision_started_event = event OrchestratorStarted 0 False,
     current_utc_datetime = Some 0, actions = []\<rparr>"

text \<open>
  A history with three \<^verbatim>\<open>OrchestratorStarted\<close> events of which the first two are
  processed; one with a second decision after the call is scheduled; one whose only event
  has a timestamp that does not parse.
\<close>

definition history_7 :: durable_context where
  "history_7 = \<lparr>histories = [event OrchestratorStarted 1 True, event OrchestratorStarted 2 True,
       event OrchestratorStarted 3 False],
     decision_started_event = event OrchestratorStarted 1 True,
     current_utc_datetime = Some 1, actions = []\<rparr>"

definition history_8 :: durable_context where
  "history_8 = \<lparr>histories = [event OrchestratorStarted 0 True, event TaskScheduled 1 True,
       event OrchestratorStarted 5 False, event TaskCompleted 6 False],
     decision_started_event = event OrchestratorStarted 0 True,
     current_utc_datetime = Some 0, actions = []\<rparr>"

definition history_9 :: durable_context where
  "history_9 = \<lparr>histories = [\<lparr>EventType = OrchestratorStarted, Timestamp = Unparseable,
         IsProcessed = False\<rparr>],
     decision_started_event = \<lparr>EventType = OrchestratorStarted, Timestamp = Unparseable,
         IsProcessed = False\<rparr>,
     current_utc_datetime = None, actions = []\<rparr>"

text \<open>
  The constructor \<^verbatim>\<open>DurableOrchestrationContext\<close> is declared outside this file, and
  \<^verbatim>\<open>handle\<close> takes it as a parameter. For the scenarios: a constructor that reads the
  context strings of the histories above and raises on any other string, as a parser does
  on a string that it cannot read.
\<close>

definition new_context_of :: "string \<Rightarrow> py_exn + durable_context" where
  "new_context_of s =
     (if s = ''history 1'' then Inr history_1
      else if s = ''history 2'' then Inr history_2
      else if s = ''history 3'' then Inr history_3
      else if s = ''history 9'' then Inr history_9
      else Inl (PyException ''Expecting value: line 1 column 1 (char 0)''))"

section \<open>Properties of one pass and of a run\<close>

lemma add_to_actions_actions: "actions (add_to_actions ctx y) = actions ctx @ batch_of y"
  by (cases y) (auto split: option.splits)

lemma add_to_actions_fields:
  "histories (add_to_actions ctx y) = histories ctx"
  "decision_started_event (add_to_actions ctx y) = decision_started_event ctx"
  "current_utc_datetime (add_to_actions ctx y) = current_utc_datetime ctx"
  by (cases y; auto split: option.splits)+

lemma reset_timestamp_keeps:
  "reset_timestamp ctx = (x, ctx') \<Longrightarrow> actions ctx' = actions ctx \<and> histories ctx' = histories ctx"
  by (auto simp: reset_timestamp_def Let_def split: sum.splits list.splits)

lemma after_resume_Continue:
  "after_resume c r = Continue ctx' gen' y' \<Longrightarrow> ctx' = c"
  by (cases "(c, r)" rule: after_resume.cases) auto

lemma after_resume_Exit:
  "after_resume c r = Exit sig ctx' gen' \<Longrightarrow> ctx' = c"
  by (cases "(c, r)" rule: after_resume.cases) auto

lemma loop_body_Continue_actions:
  "loop_body susp flow cs ctx gen y = Continue ctx' gen' y' \<Longrightarrow> actions ctx' = actions ctx @ batch_of y"
  by (auto simp: loop_body_def Let_def add_to_actions_actions split: if_splits prod.splits option.splits
      dest!: after_resume_Continue reset_timestamp_keeps)

lemma loop_body_Exit_actions:
  "loop_body susp flow cs ctx gen y = Exit sig ctx' gen' \<Longrightarrow> actions ctx' = actions ctx @ batch_of y"
  by (auto simp: loop_body_def Let_def add_to_actions_actions split: if_splits prod.splits option.splits
      dest!: after_resume_Exit reset_timestamp_keeps)

lemma loop_reaches_actions:
  "loop_reaches susp flow cs st0 ys st \<Longrightarrow>
   actions (fst st) = actions (fst st0) @ concat (map batch_of ys)"
  by (induction rule: loop_reaches.induct) (auto dest: loop_body_Continue_actions)

lemma loop_reaches_while:
  "loop_reaches susp flow cs st0 ys st \<Longrightarrow>
   while_loop susp flow cs (fst st0) (fst (snd st0)) (snd (snd st0)) =
   while_loop susp flow cs (fst st) (fst (snd st)) (snd (snd st))"
proof (induction rule: loop_reaches.induct)
  case (here st)
  show ?case by simp
next
  case (pass ctx gen y ctx' gen' y' ys st)
  have "while_loop susp flow cs ctx gen y = while_loop susp flow cs ctx' gen' y'"
    by (subst while_loop.simps) (simp add: pass.hyps(1))
  with pass.IH show ?case by simp
qed

lemma while_loop_exit:
  "loop_body susp flow cs ctx gen y = Exit sig ctx' gen' \<Longrightarrow>
   while_loop susp flow cs ctx gen y = Some (sig, ctx', gen')"
  by (subst while_loop.simps) simp

lemma while_loop_Some:
  assumes h: "while_loop susp flow cs ctx0 gen0 y0 = Some ex"
  shows "\<exists>ys ctx gen y. loop_reaches susp flow cs (ctx0, gen0, y0) ys (ctx, gen, y) \<and>
      loop_body susp flow cs ctx gen y = Exit (fst ex) (fst (snd ex)) (snd (snd ex))"
proof -
  let ?P = "\<lambda>susp flow cs ctx0 gen0 y0 ex.
      \<exists>ys ctx gen y. loop_reaches susp flow cs (ctx0, gen0, y0) ys (ctx, gen, y) \<and>
      loop_body susp flow cs ctx gen y = Exit (fst ex) (fst (snd ex)) (snd (snd ex))"
  have "?P susp flow cs ctx0 gen0 y0 ex"
  proof (rule while_loop.raw_induct[where P = ?P, OF _ h], goal_cases)
    case (1 wl susp flow cs ctx gen y ex)
    show ?case
    proof (cases "loop_body susp flow cs ctx gen y")
      case (Continue ctx' gen' y')
      with 1(2) have a: "wl susp flow cs ctx' gen' y' = Some ex" by simp
      from 1(1)[OF a] obtain ys c g v where
        r: "loop_reaches susp flow cs (ctx', gen', y') ys (c, g, v)" and
        e: "loop_body susp flow cs c g v = Exit (fst ex) (fst (snd ex)) (snd (snd ex))"
        by blast
      from loop_reaches.pass[OF Continue r] e show ?thesis by blast
    next
      case (Exit sig ctx' gen')
      with 1(2) have "ex = (sig, ctx', gen')" by simp
      with Exit loop_reaches.here[of susp flow cs "(ctx, gen, y)"] show ?thesis by auto
    qed
  qed
  then show ?thesis .
qed

lemmas scenario_defs =
  call_action_def pending_call_def completed_call_def failed_call_def await_call_def event_def
  history_1_def history_2_def history_3_def new_context_of_def Orchestrator_def
  should_suspend_def

lemmas driver_defs =
  handle_def try_block_def generate_next_def loop_body_def reset_timestamp_def
  OrchestratorState_def

lemma loop_body_Suspended:
  "loop_body susp flow cs ctx gen y = Exit (Suspended st) c g \<Longrightarrow>
   st = OrchestratorState False PNone (actions c) cs None"
  by (auto simp: loop_body_def Let_def split: if_splits prod.splits option.splits
      elim!: after_resume.elims)

lemma try_block_Suspended:
  assumes "try_block susp flow cs ctx gen = Some (Suspended st, c, g)"
  shows "st = OrchestratorState False PNone (actions c) cs None"
proof (cases "after_resume ctx (generate_next flow gen ctx (YValue PNone))")
  case (Continue ctx' gen' y')
  with assms have "while_loop susp flow cs ctx' gen' y' = Some (Suspended st, c, g)"
    by (simp add: try_block_def)
  from while_loop_Some[OF this] loop_body_Suspended show ?thesis by fastforce
next
  case (Exit sig ctx' gen')
  with assms have "after_resume ctx (generate_next flow gen ctx (YValue PNone)) = Exit (Suspended st) c g"
    by (simp add: try_block_def)
  then show ?thesis by (auto elim!: after_resume.elims)
qed

text \<open>
  Claim C1. When the loop, started on the first value that the workflow yields, comes to a
  value on which the suspension predicate holds, \<^verbatim>\<open>handle\<close> returns the wire form of a
  decision with \<open>is_done\<close> false, no output, no error, and as actions the batches of the
  values inspected so far, in yield order, after the actions that the context started with.
\<close>

theorem suspension_decision:
  assumes "new_context context_string = Inr ctx0"
    and "function_context ctx0 = None" and "gen_call (fn self) ctx0 = None"
    and "generate_next (fn self) (Suspended_at (gen_start (fn self))) ctx0 (YValue PNone)
           = (Yielded y0, gen0)"
    and "loop_reaches susp (fn self) (customStatus self) (ctx0, gen0, y0) ys (ctx, gen, y)"
    and "susp y"
  shows "map_option fst (handle new_context function_context to_json_string susp self context_string) =
     Some (to_json_string \<lparr>is_done = False, state_output = PNone,
       state_actions = actions ctx0 @ concat (map batch_of (ys @ [y])),
       custom_status = customStatus self, error = None\<rparr>)"
proof -
  let ?c = "add_to_actions ctx y"
  have body: "loop_body susp (fn self) (customStatus self) ctx gen y =
      Exit (Suspended (OrchestratorState False PNone (actions ?c) (customStatus self) None)) ?c gen"
    using assms(6) by (simp add: loop_body_def Let_def)
  have "while_loop susp (fn self) (customStatus self) ctx0 gen0 y0 =
      while_loop susp (fn self) (customStatus self) ctx gen y"
    using loop_reaches_while[OF assms(5)] by simp
  also have "\<dots> = Some (Suspended (OrchestratorState False PNone (actions ?c) (customStatus self) None), ?c, gen)"
    by (rule while_loop_exit[OF body])
  finally have loop: "try_block susp (fn self) (customStatus self) ctx0 (Suspended_at (gen_start (fn self))) =
      Some (Suspended (OrchestratorState False PNone (actions ?c) (customStatus self) None), ?c, gen)"
    by (simp add: try_block_def assms(4))
  have acts: "actions ?c = actions ctx0 @ concat (map batch_of (ys @ [y]))"
    using loop_reaches_actions[OF assms(5)] by (simp add: add_to_actions_actions)
  show ?thesis
    by (simp add: handle_def assms(1,2,3) loop acts OrchestratorState_def)
qed

text \<open>
  Scenario 1: the history holds one \<^verbatim>\<open>OrchestratorStarted\<close> event and the workflow yields a
  pending call at once.
\<close>

theorem suspension_decision_witness:
  "should_suspend (YTask pending_call) \<and>
   map_option fst (handle new_context_of (\<lambda>ctx. None) Inr should_suspend (Orchestrator (await_call pending_call))
       ''history 1'') =
     Some (Inr \<lparr>is_done = False, state_output = PNone, state_actions = [[call_action]],
       custom_status = PNone, error = None\<rparr>)"
  using suspension_decision[of new_context_of "''history 1''" history_1 "\<lambda>ctx. None"
      "Orchestrator (await_call pending_call)" "YTask pending_call" "Suspended_at 1"
      should_suspend "[]" history_1 "Suspended_at 1" "YTask pending_call" Inr,
      OF _ _ _ _ loop_reaches.here]
  by (simp add: scenario_defs generate_next_def)

text \<open>
  Claim C2. Whatever \<^verbatim>\<open>handle\<close> returns is the wire form of a decision in which done
  implies no error, and an error implies not done and no output.
\<close>

theorem decision_invariant:
  assumes "handle new_context function_context to_json_string susp self context_string = Some (Inr js, self')"
  shows "\<exists>d. to_json_string d = Inr js \<and>
           (is_done d \<longrightarrow> error d = None) \<and>
           (error d \<noteq> None \<longrightarrow> \<not> is_done d \<and> state_output d = PNone)"
proof -
  from assms obtain ctx0 sig c g d where
    t: "try_block susp (fn self) (customStatus self) ctx0 (Suspended_at (gen_start (fn self)))
          = Some (sig, c, g)" and
    o: "orchestration_state (customStatus self) sig c = Inr d" and
    j: "to_json_string d = Inr js"
    by (auto simp: handle_def split: sum.splits option.splits)
  have "(is_done d \<longrightarrow> error d = None) \<and>
        (error d \<noteq> None \<longrightarrow> \<not> is_done d \<and> state_output d = PNone)"
  proof (cases sig)
    case (Suspended st)
    with t have "st = OrchestratorState False PNone (actions c) (customStatus self) None"
      by (auto dest: try_block_Suspended)
    with o Suspended have "d = OrchestratorState False PNone (actions c) (customStatus self) None"
      by simp
    then show ?thesis by (simp add: OrchestratorState_def)
  next
    case (Stopped v)
    with o show ?thesis by (auto simp: OrchestratorState_def)
  next
    case (Failed e)
    with o show ?thesis by (auto simp: OrchestratorState_def split: if_splits)
  qed
  with j show ?thesis by blast
qed

text \<open>
  The invariant at the decision of the failure site.
\<close>

theorem decision_invariant_witness:
  "handle new_context_of (\<lambda>ctx. None) Inr should_suspend (Orchestrator (await_call failed_call)) ''history 3'' =
     Some (Inr \<lparr>is_done = False, state_output = PNone, state_actions = [[call_action]],
             custom_status = PNone, error = Some ''boom''\<rparr>,
           (Orchestrator (await_call failed_call))
             \<lparr>durable_context := Some (history_3\<lparr>actions := [[call_action]]\<rparr>),
              generator := Some Finished\<rparr>) \<and>
   \<not> is_done \<lparr>is_done = False, state_output = PNone, state_actions = [[call_action]],
             custom_status = PNone, error = Some ''boom''\<rparr> \<and>
   state_output \<lparr>is_done = False, state_output = PNone, state_actions = [[call_action]],
             custom_status = PNone, error = Some ''boom''\<rparr> = PNone"
proof -
  have run: "handle new_context_of (\<lambda>ctx. None) Inr should_suspend (Orchestrator (await_call failed_call)) ''history 3'' =
     Some (Inr \<lparr>is_done = False, state_output = PNone, state_actions = [[call_action]],
             custom_status = PNone, error = Some ''boom''\<rparr>,
           (Orchestrator (await_call failed_call))
             \<lparr>durable_context := Some (history_3\<lparr>actions := [[call_action]]\<rparr>),
              generator := Some Finished\<rparr>)"
    by (simp add: scenario_defs driver_defs while_loop.simps)
  from decision_invariant[OF run] run show ?thesis by simp
qed

text \<open>
  Claim C3, amended. The workflow yields a handle that is not faulted and not suspended on,
  and returns the result that it is sent: \<^verbatim>\<open>handle\<close> returns the wire form of a decision
  with \<open>is_done\<close> true, the result as output, no error, and as actions the descriptor of
  the awaited call, which
  \<^verbatim>\<open>_add_to_actions\<close> records when the handle is yielded whether or not the call is completed.
\<close>

theorem completed_call_decision:
  assumes "new_context context_string = Inr ctx0"
    and "function_context ctx0 = None" and "gen_call (fn self) ctx0 = None"
    and "gen_resume (fn self) (gen_start (fn self)) (Send PNone) ctx0 = Yield (YTask t) g"
    and "\<not> susp (YTask t)" and "\<not> isFaulted t" and "action t = Some a"
    and "reset_timestamp (add_to_actions ctx0 (YTask t)) = (None, ctx1)"
    and "gen_resume (fn self) g (Send (result t)) ctx1 = Return (result t)"
  shows "map_option fst (handle new_context function_context to_json_string susp self context_string) =
     Some (to_json_string \<lparr>is_done = True, state_output = result t,
       state_actions = actions ctx0 @ [[a]],
       custom_status = customStatus self, error = None\<rparr>)"
proof -
  have body: "loop_body susp (fn self) (customStatus self) ctx0 (Suspended_at g) (YTask t) =
      Exit (Stopped (result t)) ctx1 Finished"
    using assms(5,6,8,9) by (simp add: loop_body_def Let_def generate_next_def)
  have "actions ctx1 = actions ctx0 @ [[a]]"
    using reset_timestamp_keeps[OF assms(8)] assms(7) by simp
  with while_loop_exit[OF body] assms(1,2,3,4) show ?thesis
    by (simp add: handle_def try_block_def generate_next_def OrchestratorState_def)
qed

text \<open>
  Scenario 2, with the actions that the driver returns.
\<close>

theorem completed_call_decision_witness:
  "map_option fst (handle new_context_of (\<lambda>ctx. None) Inr should_suspend (Orchestrator (await_call completed_call))
      ''history 2'') =
     Some (Inr \<lparr>is_done = True, state_output = PStr ''42'', state_actions = [] @ [[call_action]],
       custom_status = PNone, error = None\<rparr>)"
  using completed_call_decision[of new_context_of "''history 2''" history_2 "\<lambda>ctx. None"
      "Orchestrator (await_call completed_call)" completed_call 1 should_suspend call_action
      "history_2\<lparr>actions := [[call_action]], current_utc_datetime := None\<rparr>" Inr]
  by (simp add: scenario_defs reset_timestamp_def)

text \<open>
  Claim C3 as stated fails in scenario 2: the decision is not the one with an empty actions list.
\<close>

theorem completed_call_actions_counterexample:
  "map_option fst (handle new_context_of (\<lambda>ctx. None) Inr should_suspend (Orchestrator (await_call completed_call))
      ''history 2'') \<noteq>
     Some (Inr \<lparr>is_done = True, state_output = PStr ''42'', state_actions = [],
       custom_status = PNone, error = None\<rparr>)"
  by (simp add: scenario_defs driver_defs while_loop.simps)

text \<open>
  Claim C4, amended. The workflow yields a faulted handle and does not handle the exception
  that is thrown into it: \<^verbatim>\<open>handle\<close> returns the wire form of a decision with
  \<open>is_done\<close> false, no output, the text of the exception as error, and as actions the
  descriptor of the awaited call.
\<close>

theorem uncaught_fault_decision:
  assumes "new_context context_string = Inr ctx0"
    and "function_context ctx0 = None" and "gen_call (fn self) ctx0 = None"
    and "gen_resume (fn self) (gen_start (fn self)) (Send PNone) ctx0 = Yield (YTask t) g"
    and "\<not> susp (YTask t)" and "isFaulted t" and "action t = Some a"
    and "exception t = Some e" and "is_Exception e"
    and "gen_resume (fn self) g (Throw e) (add_to_actions ctx0 (YTask t)) = Raise e"
  shows "map_option fst (handle new_context function_context to_json_string susp self context_string) =
     Some (to_json_string \<lparr>is_done = False, state_output = PNone,
       state_actions = actions ctx0 @ [[a]],
       custom_status = customStatus self, error = Some (str_exn e)\<rparr>)"
proof -
  have body: "loop_body susp (fn self) (customStatus self) ctx0 (Suspended_at g) (YTask t) =
      Exit (Failed e) (add_to_actions ctx0 (YTask t)) Finished"
    using assms(5,6,8,10) by (simp add: loop_body_def Let_def)
  from while_loop_exit[OF body] assms(1,2,3,4,7,9) show ?thesis
    by (simp add: handle_def try_block_def generate_next_def OrchestratorState_def)
qed

text \<open>
  Scenario 3, with the actions that the driver returns.
\<close>

theorem uncaught_fault_decision_witness:
  "map_option fst (handle new_context_of (\<lambda>ctx. None) Inr should_suspend (Orchestrator (await_call failed_call))
      ''history 3'') =
     Some (Inr \<lparr>is_done = False, state_output = PNone, state_actions = [] @ [[call_action]],
       custom_status = PNone, error = Some ''boom''\<rparr>)"
  using uncaught_fault_decision[of new_context_of "''history 3''" history_3 "\<lambda>ctx. None"
      "Orchestrator (await_call failed_call)" failed_call 1 should_suspend call_action
      "PyException ''boom''" Inr]
  by (simp add: scenario_defs)

text \<open>
  Claim C4 as stated fails in scenario 3: the decision is not the one with an empty actions list.
\<close>

theorem uncaught_fault_actions_counterexample:
  "map_option fst (handle new_context_of (\<lambda>ctx. None) Inr should_suspend (Orchestrator (await_call failed_call))
      ''history 3'') \<noteq>
     Some (Inr \<lparr>is_done = False, state_output = PNone, state_actions = [],
       custom_status = PNone, error = Some ''boom''\<rparr>)"
  by (simp add: scenario_defs driver_defs while_loop.simps)

lemma try_block_actions:
  assumes "try_block susp flow cs ctx0 (Suspended_at (gen_start flow)) = Some (sig, c, g)"
  shows "\<exists>ys. inspected susp flow cs ctx0 ys \<and> actions c = actions ctx0 @ concat (map batch_of ys)"
proof (cases "generate_next flow (Suspended_at (gen_start flow)) ctx0 (YValue PNone)")
  case (Pair r gen0)
  show ?thesis
  proof (cases r)
    case (Yielded y0)
    with Pair assms have "while_loop susp flow cs ctx0 gen0 y0 = Some (sig, c, g)"
      by (simp add: try_block_def)
    from while_loop_Some[OF this] obtain ys' ctx gen y where
      r: "loop_reaches susp flow cs (ctx0, gen0, y0) ys' (ctx, gen, y)" and
      e: "loop_body susp flow cs ctx gen y = Exit sig c g"
      by auto
    have "actions c = actions ctx0 @ concat (map batch_of (ys' @ [y]))"
      using loop_reaches_actions[OF r] loop_body_Exit_actions[OF e] by simp
    moreover have "inspected susp flow cs ctx0 (ys' @ [y])"
      using r e Pair Yielded by (simp add: inspected_def) blast
    ultimately show ?thesis by blast
  next
    case (StopIteration v)
    with Pair assms show ?thesis by (auto simp: try_block_def inspected_def)
  next
    case (Raised e)
    with Pair assms show ?thesis by (auto simp: try_block_def inspected_def)
  qed
qed

lemma orchestration_state_actions:
  assumes "try_block susp flow cs ctx0 gen = Some (sig, c, g)"
    and "orchestration_state cs sig c = Inr d"
  shows "state_actions d = actions c"
proof (cases sig)
  case (Suspended st)
  with assms(1) have "st = OrchestratorState False PNone (actions c) cs None"
    by (auto dest: try_block_Suspended)
  with assms(2) Suspended show ?thesis by (auto simp: OrchestratorState_def)
next
  case (Stopped v)
  with assms(2) show ?thesis by (auto simp: OrchestratorState_def)
next
  case (Failed e)
  with assms(2) show ?thesis by (auto simp: OrchestratorState_def split: if_splits)
qed

text \<open>
  Claim C5, amended. The actions of the decision that \<^verbatim>\<open>handle\<close> returns (in its wire
  form) are the batches of the values that the loop inspected, one batch for every yield of a handle that carries descriptors, in yield
  order, after the actions that the context started with. The driver keeps no record of the
  handles it has seen: a handle that is yielded again is recorded again.
\<close>

theorem every_yield_recorded:
  assumes "new_context context_string = Inr ctx0"
    and "handle new_context function_context to_json_string susp self context_string = Some (Inr js, self')"
  shows "\<exists>d ys. to_json_string d = Inr js \<and>
           inspected susp (fn self) (customStatus self) ctx0 ys \<and>
           state_actions d = actions ctx0 @ concat (map batch_of ys)"
proof -
  from assms obtain sig c g d where
    t: "try_block susp (fn self) (customStatus self) ctx0 (Suspended_at (gen_start (fn self)))
          = Some (sig, c, g)" and
    o: "orchestration_state (customStatus self) sig c = Inr d" and
    j: "to_json_string d = Inr js"
    by (auto simp: handle_def split: sum.splits option.splits)
  from try_block_actions[OF t] obtain ys where
    "inspected susp (fn self) (customStatus self) ctx0 ys"
    "actions c = actions ctx0 @ concat (map batch_of ys)"
    by blast
  with orchestration_state_actions[OF t o] j show ?thesis
    by (intro exI[of _ d] exI[of _ ys]) simp
qed

lemma scenario_twice_run:
  "handle new_context_of (\<lambda>ctx. None) Inr should_suspend (Orchestrator (await_twice completed_call)) ''history 2'' =
     Some (Inr \<lparr>is_done = True, state_output = PStr ''42'',
             state_actions = [[call_action], [call_action]],
             custom_status = PNone, error = None\<rparr>,
           (Orchestrator (await_twice completed_call))
             \<lparr>durable_context := Some (history_2\<lparr>current_utc_datetime := None,
                 actions := [[call_action], [call_action]]\<rparr>),
              generator := Some Finished\<rparr>)"
  by (simp add: scenario_defs driver_defs while_loop.simps await_twice_def)

text \<open>
  The workflow that yields the completed call twice: two values inspected, two batches.
\<close>

theorem every_yield_recorded_witness:
  "\<exists>ys. inspected should_suspend (await_twice completed_call) PNone history_2 ys \<and>
      [[call_action], [call_action]] = actions history_2 @ concat (map batch_of ys)"
  using every_yield_recorded[of new_context_of "''history 2''" history_2,
      OF _ scenario_twice_run]
  by (simp add: new_context_of_def Orchestrator_def)

text \<open>
  Claim C5 as stated fails: the descriptor of the handle that is yielded twice is twice in
  the actions of the decision.
\<close>

theorem repeated_yield_counterexample:
  "map_option fst (handle new_context_of (\<lambda>ctx. None) Inr should_suspend (Orchestrator (await_twice completed_call))
      ''history 2'') =
     Some (Inr \<lparr>is_done = True, state_output = PStr ''42'',
             state_actions = [[call_action], [call_action]],
             custom_status = PNone, error = None\<rparr>) \<and>
   count_list (concat [[call_action], [call_action]]) call_action = 2"
  by (simp add: scenario_twice_run)

lemma add_to_actions_eq: "add_to_actions ctx y = ctx\<lparr>actions := actions ctx @ batch_of y\<rparr>"
  by (cases y) (auto split: option.splits)




lemma started_after_filter:
  "\<forall>e \<in> set hs. EventType e = OrchestratorStarted \<longrightarrow> (\<exists>t. dt_parse (Timestamp e) = Inr t) \<Longrightarrow>
   started_after T hs = Inr (filter (started_later T) hs)"
  by (induction hs) (auto simp: started_later_def)

text \<open>
  Claim C7, amended. When the timestamps parse, \<^verbatim>\<open>_reset_timestamp\<close> searches all the
  events of the history, in order, for \<^verbatim>\<open>OrchestratorStarted\<close> events strictly later
  than the decision-started event; \<open>IsProcessed\<close> plays no part. With none, the current time
  becomes \<open>None\<close> and the decision-started event stays; otherwise the first becomes the
  decision-started event and its timestamp the current time.
\<close>

theorem reset_timestamp_selects:
  assumes "dt_parse (Timestamp (decision_started_event ctx)) = Inr T"
    and "\<forall>e \<in> set (histories ctx).
           EventType e = OrchestratorStarted \<longrightarrow> (\<exists>t. dt_parse (Timestamp e) = Inr t)"
  shows "(filter (started_later T) (histories ctx) = [] \<longrightarrow>
            reset_timestamp ctx = (None, ctx\<lparr>current_utc_datetime := None\<rparr>)) \<and>
         (\<forall>e rest t. filter (started_later T) (histories ctx) = e # rest \<longrightarrow>
            dt_parse (Timestamp e) = Inr t \<longrightarrow>
            T < t \<and>
            reset_timestamp ctx =
              (None, ctx\<lparr>decision_started_event := e, current_utc_datetime := Some t\<rparr>))"
proof (intro conjI allI impI)
  assume "filter (started_later T) (histories ctx) = []"
  with assms started_after_filter[OF assms(2), of T]
  show "reset_timestamp ctx = (None, ctx\<lparr>current_utc_datetime := None\<rparr>)"
    by (simp add: reset_timestamp_def)
next
  fix e rest t
  assume f: "filter (started_later T) (histories ctx) = e # rest"
    and p: "dt_parse (Timestamp e) = Inr t"
  have "e \<in> set (filter (started_later T) (histories ctx))" by (simp add: f)
  then have "started_later T e" by simp
  with p show "T < t" by (simp add: started_later_def)
  from assms started_after_filter[OF assms(2), of T] f p
  show "reset_timestamp ctx =
      (None, ctx\<lparr>decision_started_event := e, current_utc_datetime := Some t\<rparr>)"
    by (simp add: reset_timestamp_def)
qed

text \<open>
  Both cases: a history with later decisions, and scenario 1 with none.
\<close>

theorem reset_timestamp_selects_witness:
  "reset_timestamp history_7 =
     (None, history_7\<lparr>decision_started_event := event OrchestratorStarted 2 True,
                      current_utc_datetime := Some 2\<rparr>) \<and>
   reset_timestamp history_1 = (None, history_1\<lparr>current_utc_datetime := None\<rparr>)"
  using reset_timestamp_selects[of history_7 1] reset_timestamp_selects[of history_1 0]
  by (simp add: history_7_def history_1_def event_def started_later_def)

text \<open>
  Claim C7 as stated fails: the event selected is a processed one, though the history has an
  unprocessed \<^verbatim>\<open>OrchestratorStarted\<close> event later than the decision-started event.
\<close>

theorem reset_timestamp_processed_counterexample:
  "decision_started_event (snd (reset_timestamp history_7)) = event OrchestratorStarted 2 True \<and>
   current_utc_datetime (snd (reset_timestamp history_7)) = Some 2 \<and>
   event OrchestratorStarted 2 True \<notin> set (filter (\<lambda>e. \<not> IsProcessed e) (histories history_7)) \<and>
   filter (\<lambda>e. \<not> IsProcessed e) (histories history_7) = [event OrchestratorStarted 3 False]"
  by (simp add: reset_timestamp_def history_7_def event_def)

lemma started_after_members:
  "started_after T hs = Inr es \<Longrightarrow> e \<in> set es \<Longrightarrow>
   e \<in> set hs \<and> EventType e = OrchestratorStarted \<and> (\<exists>t. dt_parse (Timestamp e) = Inr t \<and> T < t)"
  by (induction hs arbitrary: es) (auto split: if_splits sum.splits)

lemma reset_timestamp_step:
  assumes "reset_timestamp ctx = (None, ctx')"
  shows "not_before ctx ctx' \<and>
     (case current_utc_datetime ctx' of
        None \<Rightarrow> decision_started_event ctx' = decision_started_event ctx
      | Some t \<Rightarrow>
          dt_parse (Timestamp (decision_started_event ctx')) = Inr t \<and>
          EventType (decision_started_event ctx') = OrchestratorStarted \<and>
          decision_started_event ctx' \<in> set (histories ctx'))"
proof -
  from assms obtain T es where
    T: "dt_parse (Timestamp (decision_started_event ctx)) = Inr T" and
    es: "started_after T (histories ctx) = Inr es"
    by (auto simp: reset_timestamp_def split: sum.splits)
  show ?thesis
  proof (cases es)
    case Nil
    with assms T es have "ctx' = ctx\<lparr>current_utc_datetime := None\<rparr>"
      by (simp add: reset_timestamp_def)
    then show ?thesis by (simp add: not_before_def)
  next
    case (Cons e rest)
    with started_after_members[OF es, of e] obtain t where
      e: "e \<in> set (histories ctx)" "EventType e = OrchestratorStarted"
         "dt_parse (Timestamp e) = Inr t" "T < t"
      by auto
    with assms T es Cons
    have "ctx' = ctx\<lparr>decision_started_event := e, current_utc_datetime := Some t\<rparr>"
      by (simp add: reset_timestamp_def)
    with e T show ?thesis by (auto simp: not_before_def)
  qed
qed

lemma not_before_refl: "not_before ctx ctx"
  by (simp add: not_before_def)

lemma not_before_trans: "not_before a b \<Longrightarrow> not_before b c \<Longrightarrow> not_before a c"
  by (fastforce simp: not_before_def)

lemma loop_body_Continue_time:
  assumes "loop_body susp flow cs ctx gen y = Continue ctx' gen' y'" and "anchored ctx"
  shows "not_before ctx ctx' \<and> anchored ctx'"
proof (cases "is_handle y \<and> is_faulted y")
  case True
  with assms(1) have "ctx' = add_to_actions ctx y"
    by (auto simp: loop_body_def Let_def split: if_splits dest: after_resume_Continue)
  with assms(2) show ?thesis
    by (auto simp: add_to_actions_eq not_before_def anchored_def split: option.splits)
next
  case False
  with assms(1) obtain c where r: "reset_timestamp (add_to_actions ctx y) = (None, c)"
    and c: "ctx' = c"
    by (auto simp: loop_body_def Let_def split: if_splits prod.splits option.splits
        dest: after_resume_Continue)
  from reset_timestamp_step[OF r] c show ?thesis
    by (auto simp: add_to_actions_eq not_before_def anchored_def split: option.splits)
qed

lemma loop_reaches_time:
  "loop_reaches susp flow cs st0 ys st \<Longrightarrow> anchored (fst st0) \<Longrightarrow>
   not_before (fst st0) (fst st) \<and> anchored (fst st)"
proof (induction rule: loop_reaches.induct)
  case (here st)
  then show ?case by (simp add: not_before_refl)
next
  case (pass ctx gen y ctx' gen' y' ys st)
  from loop_body_Continue_time[OF pass.hyps(1)] pass.prems
  have a: "not_before ctx ctx'" "anchored ctx'" by simp_all
  with pass.IH have "not_before ctx' (fst st)" "anchored (fst st)" by simp_all
  with a show ?case by (auto intro: not_before_trans)
qed

text \<open>
  Claim C8. From a context whose time is anchored, every context that the loop comes to
  has the same history and an anchored time: the current time, when there is one, is the
  timestamp of an \<^verbatim>\<open>OrchestratorStarted\<close> event of the history, and it is not before the
  time at the start.
\<close>

theorem simulated_time_monotonic:
  assumes "anchored ctx0"
    and "loop_reaches susp flow cs (ctx0, gen0, y0) ys (ctx, gen, y)"
  shows "anchored ctx \<and> histories ctx = histories ctx0 \<and>
         (\<forall>t0 t. current_utc_datetime ctx0 = Some t0 \<longrightarrow> current_utc_datetime ctx = Some t \<longrightarrow>
            t0 \<le> t)"
proof -
  from loop_reaches_time[OF assms(2)] assms(1)
  have nb: "not_before ctx0 ctx" and a: "anchored ctx" by simp_all
  show ?thesis
  proof (intro conjI allI impI)
    show "anchored ctx" by (rule a)
    show "histories ctx = histories ctx0" using nb by (simp add: not_before_def)
    fix t0 t
    assume "current_utc_datetime ctx0 = Some t0" and "current_utc_datetime ctx = Some t"
    with assms(1) a have "dt_parse (Timestamp (decision_started_event ctx0)) = Inr t0"
      and "dt_parse (Timestamp (decision_started_event ctx)) = Inr t"
      by (simp_all add: anchored_def)
    with nb show "t0 \<le> t" by (auto simp: not_before_def)
  qed
qed

lemma scenario_8_pass:
  "loop_body should_suspend (await_twice completed_call) PNone history_8 (Suspended_at 1)
      (YTask completed_call) =
   Continue (history_8\<lparr>decision_started_event := event OrchestratorStarted 5 False,
               current_utc_datetime := Some 5, actions := [[call_action]]\<rparr>)
     (Suspended_at 2) (YTask completed_call)"
  by (simp add: scenario_defs driver_defs await_twice_def history_8_def)

text \<open>
  A pass over a completed call moves the time from the first decision to the second.
\<close>

theorem simulated_time_monotonic_witness:
  "anchored history_8 \<and>
   anchored (history_8\<lparr>decision_started_event := event OrchestratorStarted 5 False,
               current_utc_datetime := Some 5, actions := [[call_action]]\<rparr>) \<and>
   current_utc_datetime history_8 = Some 0 \<and> (0::int) \<le> 5"
  using simulated_time_monotonic[of history_8 should_suspend "await_twice completed_call" PNone
      "Suspended_at 1" "YTask completed_call" "[YTask completed_call]"
      "history_8\<lparr>decision_started_event := event OrchestratorStarted 5 False,
               current_utc_datetime := Some 5, actions := [[call_action]]\<rparr>"
      "Suspended_at 2" "YTask completed_call",
      OF _ loop_reaches.pass[OF scenario_8_pass loop_reaches.here]]
  by (simp add: anchored_def history_8_def event_def)

lemma handle_failed:
  assumes "new_context s = Inr ctx0" and "function_context ctx0 = None"
    and "gen_call (fn self) ctx0 = None"
    and "try_block susp (fn self) (customStatus self) ctx0 (Suspended_at (gen_start (fn self)))
           = Some (Failed e, c, g)"
    and "is_Exception e"
  shows "map_option fst (handle new_context function_context to_json_string susp self s) =
     Some (to_json_string \<lparr>is_done = False, state_output = PNone, state_actions = actions c,
       custom_status = customStatus self, error = Some (str_exn e)\<rparr>)"
  using assms by (simp add: handle_def OrchestratorState_def)

lemma try_block_pass:
  assumes "generate_next flow (Suspended_at (gen_start flow)) ctx0 (YValue PNone)
             = (Yielded y0, gen0)"
    and "loop_reaches susp flow cs (ctx0, gen0, y0) ys (ctx, gen, y)"
    and "loop_body susp flow cs ctx gen y = Exit sig c g"
  shows "try_block susp flow cs ctx0 (Suspended_at (gen_start flow)) = Some (sig, c, g) \<and>
         actions c = actions ctx0 @ concat (map batch_of (ys @ [y]))"
proof -
  have "while_loop susp flow cs ctx0 gen0 y0 = while_loop susp flow cs ctx gen y"
    using loop_reaches_while[OF assms(2)] by simp
  also have "\<dots> = Some (sig, c, g)" by (rule while_loop_exit[OF assms(3)])
  finally have "try_block susp flow cs ctx0 (Suspended_at (gen_start flow)) = Some (sig, c, g)"
    by (simp add: try_block_def assms(1))
  moreover have "actions c = actions ctx0 @ concat (map batch_of (ys @ [y]))"
    using loop_reaches_actions[OF assms(2)] loop_body_Exit_actions[OF assms(3)] by simp
  ultimately show ?thesis by simp
qed

lemma reset_timestamp_malformed:
  "dt_parse (Timestamp (decision_started_event ctx)) = Inl e \<Longrightarrow>
   reset_timestamp (add_to_actions ctx y) = (Some e, add_to_actions ctx y)"
  by (simp add: reset_timestamp_def add_to_actions_fields)

lemma pass_raises:
  assumes "\<not> susp y"
    and "(is_handle y \<and> is_faulted y \<and>
           (\<exists>x. exception_of y = Some x \<and>
                gen_resume flow g (Throw x) (add_to_actions ctx y) = Raise e)) \<or>
         (\<not> (is_handle y \<and> is_faulted y) \<and>
           dt_parse (Timestamp (decision_started_event ctx)) = Inl e) \<or>
         (\<not> (is_handle y \<and> is_faulted y) \<and>
           (\<exists>ctx2 v. reset_timestamp (add_to_actions ctx y) = (None, ctx2) \<and>
                y = YValue v \<and> v \<noteq> PNone \<and> e = attribute_error v)) \<or>
         (\<not> (is_handle y \<and> is_faulted y) \<and>
           (\<exists>ctx2 r. reset_timestamp (add_to_actions ctx y) = (None, ctx2) \<and>
                (result_of y = Inr r \<or> y = YValue PNone \<and> r = PNone) \<and>
                gen_resume flow g (Send r) ctx2 = Raise e))"
  shows "\<exists>c g'. loop_body susp flow cs ctx (Suspended_at g) y = Exit (Failed e) c g'"
  using assms
  by (elim disjE conjE exE)
     (auto simp: loop_body_def Let_def generate_next_def reset_timestamp_malformed)


text \<open>
  Claim C9, amended. An exception of class \<^verbatim>\<open>Exception\<close> that is raised in the
  \<^verbatim>\<open>try\<close> block is returned as a decision with \<open>is_done\<close> false, no output, its text as
  error and the actions recorded so far. Its sources, at a value that the loop has come to
  and does not suspend on: a recorded fault that is thrown into the workflow and leaves it;
  a decision-started timestamp that does not parse; the \<^verbatim>\<open>result\<close> attribute read of a
  plain value; the workflow raising when it is sent the result; and, before the loop, the
  workflow raising at its first resumption. What \<^verbatim>\<open>handle\<close> returns is
  \<^verbatim>\<open>to_json_string\<close> of that decision. The statements before the \<^verbatim>\<open>try\<close> are not
  covered: what the context constructor raises on the context string, what
  \<^verbatim>\<open>IFunctionContext\<close> raises and what the call of the workflow function raises leave
  \<^verbatim>\<open>handle\<close>.
\<close>

theorem failure_surfaced:
  "(\<forall>ctx0 y0 gen0 ys ctx g y e.
      new_context s = Inr ctx0 \<longrightarrow> function_context ctx0 = None \<longrightarrow>
      gen_call (fn self) ctx0 = None \<longrightarrow>
      generate_next (fn self) (Suspended_at (gen_start (fn self))) ctx0 (YValue PNone)
        = (Yielded y0, gen0) \<longrightarrow>
      loop_reaches susp (fn self) (customStatus self) (ctx0, gen0, y0) ys
        (ctx, Suspended_at g, y) \<longrightarrow>
      \<not> susp y \<longrightarrow> is_Exception e \<longrightarrow>
      ((is_handle y \<and> is_faulted y \<and>
         (\<exists>x. exception_of y = Some x \<and>
              gen_resume (fn self) g (Throw x) (add_to_actions ctx y) = Raise e)) \<or>
       (\<not> (is_handle y \<and> is_faulted y) \<and>
         dt_parse (Timestamp (decision_started_event ctx)) = Inl e) \<or>
       (\<not> (is_handle y \<and> is_faulted y) \<and>
         (\<exists>ctx2 v. reset_timestamp (add_to_actions ctx y) = (None, ctx2) \<and>
              y = YValue v \<and> v \<noteq> PNone \<and> e = attribute_error v)) \<or>
       (\<not> (is_handle y \<and> is_faulted y) \<and>
         (\<exists>ctx2 r. reset_timestamp (add_to_actions ctx y) = (None, ctx2) \<and>
              (result_of y = Inr r \<or> y = YValue PNone \<and> r = PNone) \<and>
              gen_resume (fn self) g (Send r) ctx2 = Raise e))) \<longrightarrow>
      map_option fst (handle new_context function_context to_json_string susp self s) =
        Some (to_json_string \<lparr>is_done = False, state_output = PNone,
          state_actions = actions ctx0 @ concat (map batch_of (ys @ [y])),
          custom_status = customStatus self, error = Some (str_exn e)\<rparr>)) \<and>
   (\<forall>ctx0 e.
      new_context s = Inr ctx0 \<longrightarrow> function_context ctx0 = None \<longrightarrow>
      gen_call (fn self) ctx0 = None \<longrightarrow>
      gen_resume (fn self) (gen_start (fn self)) (Send PNone) ctx0 = Raise e \<longrightarrow>
      is_Exception e \<longrightarrow>
      map_option fst (handle new_context function_context to_json_string susp self s) =
        Some (to_json_string \<lparr>is_done = False, state_output = PNone,
          state_actions = actions ctx0,
          custom_status = customStatus self, error = Some (str_exn e)\<rparr>)) \<and>
   (\<forall>x. new_context s = Inl x \<longrightarrow>
      map_option fst (handle new_context function_context to_json_string susp self s) =
        Some (Inl x)) \<and>
   (\<forall>ctx0 x. new_context s = Inr ctx0 \<longrightarrow> function_context ctx0 = Some x \<longrightarrow>
      map_option fst (handle new_context function_context to_json_string susp self s) =
        Some (Inl x)) \<and>
   (\<forall>ctx0 x. new_context s = Inr ctx0 \<longrightarrow> function_context ctx0 = None \<longrightarrow>
      gen_call (fn self) ctx0 = Some x \<longrightarrow>
      map_option fst (handle new_context function_context to_json_string susp self s) =
        Some (Inl x))"
proof (intro conjI allI impI)
  fix ctx0 y0 gen0 ys ctx g y e
  assume nc: "new_context s = Inr ctx0" and fc: "function_context ctx0 = None"
    and gc: "gen_call (fn self) ctx0 = None"
    and first: "generate_next (fn self) (Suspended_at (gen_start (fn self))) ctx0 (YValue PNone)
        = (Yielded y0, gen0)"
    and reach: "loop_reaches susp (fn self) (customStatus self) (ctx0, gen0, y0) ys
        (ctx, Suspended_at g, y)"
    and ns: "\<not> susp y" and ex: "is_Exception e"
    and src: "(is_handle y \<and> is_faulted y \<and>
         (\<exists>x. exception_of y = Some x \<and>
              gen_resume (fn self) g (Throw x) (add_to_actions ctx y) = Raise e)) \<or>
       (\<not> (is_handle y \<and> is_faulted y) \<and>
         dt_parse (Timestamp (decision_started_event ctx)) = Inl e) \<or>
       (\<not> (is_handle y \<and> is_faulted y) \<and>
         (\<exists>ctx2 v. reset_timestamp (add_to_actions ctx y) = (None, ctx2) \<and>
              y = YValue v \<and> v \<noteq> PNone \<and> e = attribute_error v)) \<or>
       (\<not> (is_handle y \<and> is_faulted y) \<and>
         (\<exists>ctx2 r. reset_timestamp (add_to_actions ctx y) = (None, ctx2) \<and>
              (result_of y = Inr r \<or> y = YValue PNone \<and> r = PNone) \<and>
              gen_resume (fn self) g (Send r) ctx2 = Raise e))"
  have "\<exists>c g'. loop_body susp (fn self) (customStatus self) ctx (Suspended_at g) y =
             Exit (Failed e) c g'"
    using ns src by (rule pass_raises)
  then obtain c g' where
    body: "loop_body susp (fn self) (customStatus self) ctx (Suspended_at g) y =
             Exit (Failed e) c g'"
    by blast
  from try_block_pass[OF first reach body]
  have t: "try_block susp (fn self) (customStatus self) ctx0
             (Suspended_at (gen_start (fn self))) = Some (Failed e, c, g')"
    and a: "actions c = actions ctx0 @ concat (map batch_of (ys @ [y]))"
    by simp_all
  have "map_option fst (handle new_context function_context to_json_string susp self s) =
        Some (to_json_string \<lparr>is_done = False, state_output = PNone,
          state_actions = actions c,
          custom_status = customStatus self, error = Some (str_exn e)\<rparr>)"
    using nc fc gc t ex by (rule handle_failed)
  with a
  show "map_option fst (handle new_context function_context to_json_string susp self s) =
        Some (to_json_string \<lparr>is_done = False, state_output = PNone,
          state_actions = actions ctx0 @ concat (map batch_of (ys @ [y])),
          custom_status = customStatus self, error = Some (str_exn e)\<rparr>)"
    by simp
next
  fix ctx0 e
  assume "new_context s = Inr ctx0" and "function_context ctx0 = None"
    and "gen_call (fn self) ctx0 = None"
    and "gen_resume (fn self) (gen_start (fn self)) (Send PNone) ctx0 = Raise e"
    and "is_Exception e"
  then show "map_option fst (handle new_context function_context to_json_string susp self s) =
        Some (to_json_string \<lparr>is_done = False, state_output = PNone,
          state_actions = actions ctx0,
          custom_status = customStatus self, error = Some (str_exn e)\<rparr>)"
    by (simp add: handle_def try_block_def generate_next_def OrchestratorState_def)
next
  fix x assume "new_context s = Inl x"
  then show "map_option fst (handle new_context function_context to_json_string susp self s) =
        Some (Inl x)"
    by (simp add: handle_def)
next
  fix ctx0 x assume "new_context s = Inr ctx0" and "function_context ctx0 = Some x"
  then show "map_option fst (handle new_context function_context to_json_string susp self s) =
        Some (Inl x)"
    by (simp add: handle_def)
next
  fix ctx0 x assume "new_context s = Inr ctx0" and "function_context ctx0 = None"
    and "gen_call (fn self) ctx0 = Some x"
  then show "map_option fst (handle new_context function_context to_json_string susp self s) =
        Some (Inl x)"
    by (simp add: handle_def)
qed

text \<open>
  A timestamp that does not parse, and the failed call of scenario 3 thrown into the
  workflow, are each returned as a failure.
\<close>

theorem failure_surfaced_witness:
  "map_option fst (handle new_context_of (\<lambda>ctx. None) Inr should_suspend
      (Orchestrator (await_call completed_call)) ''history 9'') =
     Some (Inr \<lparr>is_done = False, state_output = PNone, state_actions = [[call_action]],
       custom_status = PNone, error = Some ''Unknown string format''\<rparr>) \<and>
   map_option fst (handle new_context_of (\<lambda>ctx. None) Inr should_suspend
      (Orchestrator (await_call failed_call)) ''history 3'') =
     Some (Inr \<lparr>is_done = False, state_output = PNone, state_actions = [[call_action]],
       custom_status = PNone, error = Some ''boom''\<rparr>)"
proof -
  note malformed = failure_surfaced[of new_context_of "''history 9''" "\<lambda>ctx. None"
      "Orchestrator (await_call completed_call)" should_suspend Inr,
      THEN conjunct1, rule_format,
      of history_9 "YTask completed_call" "Suspended_at 1" "[]" history_9 1
         "YTask completed_call" "PyException ''Unknown string format''",
      OF _ _ _ _ loop_reaches.here]
  note thrown = failure_surfaced[of new_context_of "''history 3''" "\<lambda>ctx. None"
      "Orchestrator (await_call failed_call)" should_suspend Inr,
      THEN conjunct1, rule_format,
      of history_3 "YTask failed_call" "Suspended_at 1" "[]" history_3 1
         "YTask failed_call" "PyException ''boom''",
      OF _ _ _ _ loop_reaches.here]
  from malformed thrown show ?thesis
    by (simp add: scenario_defs generate_next_def history_9_def)
qed

text \<open>
  Claim C9 as stated fails: on a context string that the constructor rejects,
  \<^verbatim>\<open>handle\<close> raises and returns no decision.
\<close>

theorem unparseable_context_counterexample:
  "map_option fst (handle new_context_of (\<lambda>ctx. None) Inr should_suspend
      (Orchestrator (await_call pending_call)) ''not a context'') =
     Some (Inl (PyException ''Expecting value: line 1 column 1 (char 0)''))"
  by (simp add: handle_def new_context_of_def)

end
